theory Spec2Isabelle
  imports Main "HOL-Library.AList" "HOL-Library.Char_ord" "HOL-Library.List_Lexorder"
begin

text \<open>
  A model of \<open>rockbox_fetch.py\<close>: the resolution of a build to its URL, the fetch with its
  retry policy, the snapshot and the revert of the managed subtree \<open>.rockbox\<close> of a mounted
  volume, and the merge of an unpacked build into it. The parsing of the command line, the
  resolution of the mount point and the listing commands other than the list of nightly
  builds of a device are left out. State is passed explicitly; an exception is a value.
\<close>

section \<open>Errors\<close>

text \<open>
  Every exception the program can end with is a value. \<open>SystemExit\<close> carries the message
  that \<open>die\<close> (or \<open>get_text\<close>) prints before leaving; the others are the Python exceptions
  that are raised by the library calls and caught nowhere.
\<close>

datatype error =
    SystemExit string
  | IndexError
  | FileExistsError
  | FileNotFoundError
  | NotADirectoryError
  | IsADirectoryError
  | ReadOnlyError
  | HTTPError nat
  | RetryError
  | ConnectionError
  | BadZipFile
  | ReadError

section \<open>The file system of the mounted volume\<close>

text \<open>
  A node is a regular file with raw bytes and a modification time, a regular file holding
  a gzip-compressed tar (given by the members it unpacks to) and a modification time, or a
  directory with its entries, in the order \<open>os.scandir\<close> reports them, and a modification
  time. A path is the list of its components below the root of the tree it is looked up in.
\<close>

datatype node =
    File string nat
  | TarGz "(string \<times> node) list" nat
  | Dir "(string \<times> node) list" nat

type_synonym path = "string list"

fun is_dir :: "node option \<Rightarrow> bool" where
  "is_dir (Some (Dir es t)) = True"
| "is_dir _ = False"

fun entries :: "node \<Rightarrow> (string \<times> node) list" where
  "entries (Dir es t) = es"
| "entries _ = []"

fun mtime :: "node \<Rightarrow> nat" where
  "mtime (File c t) = t"
| "mtime (TarGz ms t) = t"
| "mtime (Dir es t) = t"

fun lookup :: "node \<Rightarrow> path \<Rightarrow> node option" where
  "lookup n [] = Some n"
| "lookup n (x # p) = (case map_of (entries n) x of None \<Rightarrow> None | Some c \<Rightarrow> lookup c p)"

text \<open>
  \<open>put now p v n\<close> stores \<open>v\<close> at path \<open>p\<close> of \<open>n\<close> when the parent of \<open>p\<close> is a directory
  of \<open>n\<close>: an existing entry is replaced in place; a new one is appended to its parent,
  whose modification time becomes \<open>now\<close>.
\<close>

fun put :: "nat \<Rightarrow> path \<Rightarrow> node \<Rightarrow> node \<Rightarrow> node" where
  "put now [] v n = v"
| "put now (x # p) v (Dir es t) =
     (case map_of es x of
        Some c \<Rightarrow> Dir (AList.update x (put now p v c) es) t
      | None \<Rightarrow> if p = [] then Dir (AList.update x v es) now else Dir es t)"
| "put now (x # p) v n = n"

text \<open>
  \<open>remove now p n\<close> deletes the entry at path \<open>p\<close> of \<open>n\<close>, if there is one; the
  modification time of its parent becomes \<open>now\<close>.
\<close>

fun remove :: "nat \<Rightarrow> path \<Rightarrow> node \<Rightarrow> node" where
  "remove now [] n = n"
| "remove now (x # p) (Dir es t) =
     (case map_of es x of
        Some c \<Rightarrow>
          if p = [] then Dir (AList.delete x es) now
          else Dir (AList.update x (remove now p c) es) t
      | None \<Rightarrow> Dir es t)"
| "remove now (x # p) n = n"

text \<open>
  The outcome of a statement: \<open>None\<close> when it completes, \<open>Some e\<close> when it raises \<open>e\<close>;
  the file system it leaves behind comes with it in both cases.
\<close>

type_synonym outcome = "error option \<times> node"

text \<open>
  What the file system calls depend on besides the tree: whether the volume is mounted
  read-only, and the time of the clock (one instant for the whole run).
\<close>

record mnt =
  read_only :: bool
  now :: nat

text \<open>
  \<open>Path.mkdir(exist_ok=True)\<close>: the parent must be an existing directory; an existing
  directory is accepted as it is, an existing file raises \<open>FileExistsError\<close>; on a read-only
  volume a directory that is absent cannot be created.
\<close>

definition mkdir :: "mnt \<Rightarrow> path \<Rightarrow> node \<Rightarrow> outcome" where
  "mkdir m p fs =
     (if p = [] then (if is_dir (Some fs) then (None, fs) else (Some FileExistsError, fs))
      else case lookup fs (butlast p) of
        None \<Rightarrow> (Some FileNotFoundError, fs)
      | Some par \<Rightarrow>
          if \<not> is_dir (Some par) then (Some NotADirectoryError, fs)
          else (case lookup fs p of
                  Some n \<Rightarrow> if is_dir (Some n) then (None, fs) else (Some FileExistsError, fs)
                | None \<Rightarrow>
                    if read_only m then (Some ReadOnlyError, fs)
                    else (None, put (now m) p (Dir [] (now m)) fs)))"

text \<open>
  Opening a path for writing and storing the file \<open>v\<close> there: the parent must be an
  existing directory and the path itself must not be a directory.
\<close>

definition write_file :: "mnt \<Rightarrow> path \<Rightarrow> node \<Rightarrow> node \<Rightarrow> outcome" where
  "write_file m p v fs =
     (if p = [] then (Some IsADirectoryError, fs)
      else case lookup fs (butlast p) of
        None \<Rightarrow> (Some FileNotFoundError, fs)
      | Some par \<Rightarrow>
          if \<not> is_dir (Some par) then (Some NotADirectoryError, fs)
          else if is_dir (lookup fs p) then (Some IsADirectoryError, fs)
          else if read_only m then (Some ReadOnlyError, fs)
          else (None, put (now m) p v fs))"

text \<open>\<open>Path.unlink(missing_ok=True)\<close>: a missing path is accepted, a directory is not.\<close>

definition unlink :: "mnt \<Rightarrow> path \<Rightarrow> node \<Rightarrow> outcome" where
  "unlink m p fs =
     (case lookup fs p of
        None \<Rightarrow> (None, fs)
      | Some n \<Rightarrow>
          if is_dir (Some n) then (Some IsADirectoryError, fs)
          else if read_only m then (Some ReadOnlyError, fs)
          else (None, remove (now m) p fs))"

text \<open>
  \<open>shutil.copy2(src, dst)\<close>: when \<open>dst\<close> is a directory the file is copied into it under
  the base name of \<open>src\<close>; content and modification time are those of the source file.
\<close>

definition copy2 :: "mnt \<Rightarrow> string \<Rightarrow> node \<Rightarrow> path \<Rightarrow> node \<Rightarrow> outcome" where
  "copy2 m name v dst fs =
     (if is_dir (lookup fs dst) then write_file m (dst @ [name]) v fs
      else write_file m dst v fs)"

text \<open>Running a loop body over a list, stopping at the first exception.\<close>

fun for_each :: "('a \<Rightarrow> node \<Rightarrow> outcome) \<Rightarrow> 'a list \<Rightarrow> node \<Rightarrow> outcome" where
  "for_each body [] fs = (None, fs)"
| "for_each body (x # xs) fs =
     (case body x fs of
        (None, fs') \<Rightarrow> for_each body xs fs'
      | (Some e, fs') \<Rightarrow> (Some e, fs'))"

section \<open>Merge copy\<close>

text \<open>
  \<open>os.walk(src_dir)\<close>, top down: for the directory itself its relative path, the names of
  its subdirectories and its files (with the file behind each name, which \<open>copy2\<close> reads),
  then the walk of each subdirectory in turn. A source that is not a directory yields
  nothing.
\<close>

definition subdirs :: "(string \<times> node) list \<Rightarrow> (string \<times> node) list" where
  "subdirs es = filter (\<lambda>e. is_dir (Some (snd e))) es"

definition plain_files :: "(string \<times> node) list \<Rightarrow> (string \<times> node) list" where
  "plain_files es = filter (\<lambda>e. \<not> is_dir (Some (snd e))) es"

fun walk :: "path \<Rightarrow> node \<Rightarrow> (path \<times> string list \<times> (string \<times> node) list) list" where
  "walk rel (Dir es t) =
     (rel, map fst (subdirs es), plain_files es)
       # concat (map (\<lambda>e. if is_dir (Some (snd e)) then walk (rel @ [fst e]) (snd e) else []) es)"
| "walk rel n = []"

text \<open>The body of the loop over the walk, for one directory of the source.\<close>

definition merge_step ::
  "mnt \<Rightarrow> path \<Rightarrow> path \<times> string list \<times> (string \<times> node) list \<Rightarrow> node \<Rightarrow> outcome" where
  "merge_step m dst_dir step fs =
     (case step of (rel, dirs, files) \<Rightarrow>
        let dst_sub = dst_dir @ rel in
        (case mkdir m dst_sub fs of
           (Some e, fs1) \<Rightarrow> (Some e, fs1)
         | (None, fs1) \<Rightarrow>
             (case for_each (\<lambda>d. mkdir m (dst_sub @ [d])) dirs fs1 of
                (Some e, fs2) \<Rightarrow> (Some e, fs2)
              | (None, fs2) \<Rightarrow>
                  for_each (\<lambda>f. copy2 m (fst f) (snd f) (dst_sub @ [fst f])) files fs2)))"

text \<open>
  \<open>merge_copy(src_dir, dst_dir)\<close>: \<open>src_dir\<close> is the node found at the source path in the
  scratch directory (\<open>None\<close> when nothing is there), \<open>dst_dir\<close> a path of the volume.
\<close>

definition merge_copy :: "mnt \<Rightarrow> node option \<Rightarrow> path \<Rightarrow> node \<Rightarrow> outcome" where
  "merge_copy m src_dir dst_dir fs =
     (case mkdir m dst_dir fs of
        (Some e, fs1) \<Rightarrow> (Some e, fs1)
      | (None, fs1) \<Rightarrow>
          for_each (merge_step m dst_dir)
            (case src_dir of None \<Rightarrow> [] | Some s \<Rightarrow> walk [] s) fs1)"

subsection \<open>A merge as a sequence of file system calls\<close>

text \<open>
  The names in a directory are distinct. A tree read from a directory of the scratch
  location has this property at every level.
\<close>

fun wf_tree :: "node \<Rightarrow> bool" where
  "wf_tree (Dir es t) = (distinct (map fst es) \<and> (\<forall>e \<in> set es. wf_tree (snd e)))"
| "wf_tree n = True"

text \<open>
  The calls \<open>merge_copy\<close> makes on the destination, in the order it makes them: a
  \<open>mkdir\<close> of a path, or a \<open>copy2\<close> of a source file (its name and the file) to a path.
\<close>

datatype fs_call = MkDir path | Copy string node path

fun run_call :: "mnt \<Rightarrow> fs_call \<Rightarrow> node \<Rightarrow> outcome" where
  "run_call m (MkDir p) fs = mkdir m p fs"
| "run_call m (Copy name v dst) fs = copy2 m name v dst fs"

definition step_calls :: "path \<Rightarrow> path \<times> string list \<times> (string \<times> node) list \<Rightarrow> fs_call list" where
  "step_calls dst_dir step =
     (case step of (rel, dirs, files) \<Rightarrow>
        MkDir (dst_dir @ rel)
          # map (\<lambda>d. MkDir ((dst_dir @ rel) @ [d])) dirs
          @ map (\<lambda>f. Copy (fst f) (snd f) ((dst_dir @ rel) @ [fst f])) files)"

definition merge_calls :: "node option \<Rightarrow> path \<Rightarrow> fs_call list" where
  "merge_calls src_dir dst_dir =
     MkDir dst_dir
       # concat (map (step_calls dst_dir) (case src_dir of None \<Rightarrow> [] | Some s \<Rightarrow> walk [] s))"

text \<open>
  A call has taken effect in a file system when the directory it makes is there, or when
  the file it copies is at its destination, or inside the directory found there.
\<close>

fun call_done :: "fs_call \<Rightarrow> node \<Rightarrow> bool" where
  "call_done (MkDir p) fs = is_dir (lookup fs p)"
| "call_done (Copy name v dst) fs =
     (lookup fs dst = Some v \<or> (is_dir (lookup fs dst) \<and> lookup fs (dst @ [name]) = Some v))"

text \<open>
  A call of a merge of the source \<open>s\<close> into \<open>dst_dir\<close>: a copy takes the file found at a
  path of the source to that path below the destination.
\<close>

fun call_of :: "node \<Rightarrow> path \<Rightarrow> fs_call \<Rightarrow> bool" where
  "call_of s dst_dir (MkDir p) = True"
| "call_of s dst_dir (Copy name v dst) =
     (\<not> is_dir (Some v) \<and> dst \<noteq> [] \<and> name = last dst
      \<and> take (length dst_dir) dst = dst_dir
      \<and> lookup s (drop (length dst_dir) dst) = Some v
      \<and> drop (length dst_dir) dst \<noteq> [])"

section \<open>Pattern matching on index pages\<close>

text \<open>
  Strings are byte strings; \<open>\\d\<close> is read as the ASCII digits and \<open>[a-z0-9]\<close> as
  written. Each matcher takes the text at the position tried and returns what it captured
  with the text after the match.
\<close>

definition is_digit :: "char \<Rightarrow> bool" where
  "is_digit c = (CHR ''0'' \<le> c \<and> c \<le> CHR ''9'')"

definition is_lower_alnum :: "char \<Rightarrow> bool" where
  "is_lower_alnum c = ((CHR ''a'' \<le> c \<and> c \<le> CHR ''z'') \<or> is_digit c)"

fun match_lit :: "string \<Rightarrow> string \<Rightarrow> string option" where
  "match_lit [] s = Some s"
| "match_lit (c # cs) [] = None"
| "match_lit (c # cs) (d # ds) = (if c = d then match_lit cs ds else None)"

fun match_digits :: "nat \<Rightarrow> string \<Rightarrow> (string \<times> string) option" where
  "match_digits 0 s = Some ([], s)"
| "match_digits (Suc n) [] = None"
| "match_digits (Suc n) (c # cs) =
     (if is_digit c
      then (case match_digits n cs of None \<Rightarrow> None | Some (ds, r) \<Rightarrow> Some (c # ds, r))
      else None)"

text \<open>\<open>re.fullmatch(r"\\d{8}", s)\<close>: eight digits and nothing after them.\<close>

definition fullmatch_date :: "string \<Rightarrow> bool" where
  "fullmatch_date s = (case match_digits 8 s of Some (ds, []) \<Rightarrow> True | _ \<Rightarrow> False)"

text \<open>
  \<open>NIGHTLY_RE\<close>, \<open>rockbox-(?P<device>[a-z0-9]+)-(?P<date>\\d{8})\\.zip\<close>, tried at the
  start of \<open>s\<close>. The greedy device group can only end at the end of the run of
  \<open>[a-z0-9]\<close>: a shorter device would have to be followed by \<open>-\<close>, which is not in the
  class, so backtracking finds nothing more.
\<close>

definition match_nightly :: "string \<Rightarrow> (string \<times> string \<times> string) option" where
  "match_nightly s =
     (case match_lit ''rockbox-'' s of
        None \<Rightarrow> None
      | Some s1 \<Rightarrow>
          let dev = takeWhile is_lower_alnum s1; s2 = dropWhile is_lower_alnum s1 in
          if dev = [] then None
          else (case match_lit ''-'' s2 of
                  None \<Rightarrow> None
                | Some s3 \<Rightarrow>
                    (case match_digits 8 s3 of
                       None \<Rightarrow> None
                     | Some (date, s4) \<Rightarrow>
                         (case match_lit ''.zip'' s4 of
                            None \<Rightarrow> None
                          | Some rest \<Rightarrow> Some (dev, date, rest)))))"

text \<open>
  \<open>NIGHTLY_RE.finditer(text)\<close>: the matches from left to right, none overlapping. The
  counter is the number of characters still covered by the match found last; the next
  match is looked for only at the first position after them.
\<close>

fun finditer_from :: "nat \<Rightarrow> string \<Rightarrow> (string \<times> string) list" where
  "finditer_from k [] = []"
| "finditer_from (Suc k) (c # cs) = finditer_from k cs"
| "finditer_from 0 (c # cs) =
     (case match_nightly (c # cs) of
        None \<Rightarrow> finditer_from 0 cs
      | Some (dev, date, rest) \<Rightarrow> (dev, date) # finditer_from (length cs - length rest) cs)"

definition nightly_finditer :: "string \<Rightarrow> (string \<times> string) list" where
  "nightly_finditer text = finditer_from 0 text"

text \<open>\<open>NIGHTLY_RE.search(h)\<close>: the leftmost match, if any.\<close>

fun nightly_search :: "string \<Rightarrow> (string \<times> string) option" where
  "nightly_search [] = None"
| "nightly_search (c # cs) =
     (case match_nightly (c # cs) of
        None \<Rightarrow> nightly_search cs
      | Some (dev, date, rest) \<Rightarrow> Some (dev, date))"

text \<open>
  \<open>re.findall(r'href="([^"]+)"', text)\<close>: after \<open>href="\<close> the longest non-empty run of
  characters other than the quote, which the quote must follow.
\<close>

definition match_href :: "string \<Rightarrow> (string \<times> string) option" where
  "match_href s =
     (case match_lit (''href='' @ [CHR 0x22]) s of
        None \<Rightarrow> None
      | Some s1 \<Rightarrow>
          let h = takeWhile (\<lambda>c. c \<noteq> CHR 0x22) s1; s2 = dropWhile (\<lambda>c. c \<noteq> CHR 0x22) s1 in
          if h = [] then None
          else (case s2 of [] \<Rightarrow> None | q # rest \<Rightarrow> Some (h, rest)))"

fun hrefs_from :: "nat \<Rightarrow> string \<Rightarrow> string list" where
  "hrefs_from k [] = []"
| "hrefs_from (Suc k) (c # cs) = hrefs_from k cs"
| "hrefs_from 0 (c # cs) =
     (case match_href (c # cs) of
        None \<Rightarrow> hrefs_from 0 cs
      | Some (h, rest) \<Rightarrow> h # hrefs_from (length cs - length rest) cs)"

definition findall_href :: "string \<Rightarrow> string list" where
  "findall_href text = hrefs_from 0 text"

section \<open>HTTP\<close>

text \<open>
  What the server answers to one request: a status with a body, or no answer at all
  (a connection-level failure). The network is a function from the URL and the number of
  requests that URL has already received to the answer to the next one.
\<close>

datatype response = Response nat string | ConnFail

type_synonym network = "string \<Rightarrow> nat \<Rightarrow> response"

text \<open>
  The state the program acts on: the file system of the mounted volume, the requests sent
  so far (one URL per attempt, in order) and the lines printed so far.
\<close>

record world =
  fs :: node
  reqs :: "string list"
  out :: "string list"

type_synonym 'a result = "(error + 'a) \<times> world"

text \<open>
  \<open>_retry = Retry(total=3, backoff_factor=0.4, status_forcelist=(403, 429, 500, 502, 503, 504))\<close>,
  mounted on the session for every https URL.
\<close>

definition retry_total :: nat where
  "retry_total = 3"

definition status_forcelist :: "nat list" where
  "status_forcelist = [403, 429, 500, 502, 503, 504]"

text \<open>
  One \<open>_session.get\<close> under that policy: an answer whose status is in the force list, or
  a connection failure, is retried while retries are left; when none is left the adapter
  raises (\<open>RetryError\<close> for a status, \<open>ConnectionError\<close> otherwise). Any other answer is
  returned at once. The result comes with the number of requests sent. \<open>f\<close> gives the
  answer to the request with the given number. Redirects and the waiting between
  attempts are left out.
\<close>

fun attempt :: "(nat \<Rightarrow> response) \<Rightarrow> nat \<Rightarrow> nat \<Rightarrow> (error + nat \<times> string) \<times> nat" where
  "attempt f i 0 =
     (case f i of
        ConnFail \<Rightarrow> (Inl ConnectionError, 1)
      | Response st body \<Rightarrow>
          if st \<in> set status_forcelist then (Inl RetryError, 1) else (Inr (st, body), 1))"
| "attempt f i (Suc left) =
     (case f i of
        ConnFail \<Rightarrow> (case attempt f (Suc i) left of (r, n) \<Rightarrow> (r, Suc n))
      | Response st body \<Rightarrow>
          if st \<in> set status_forcelist
          then (case attempt f (Suc i) left of (r, n) \<Rightarrow> (r, Suc n))
          else (Inr (st, body), 1))"

definition session_get :: "network \<Rightarrow> string \<Rightarrow> world \<Rightarrow> (nat \<times> string) result" where
  "session_get net url w =
     (case attempt (net url) (count_list (reqs w) url) retry_total of
        (r, n) \<Rightarrow> (r, w\<lparr>reqs := reqs w @ replicate n url\<rparr>))"

text \<open>\<open>r.raise_for_status()\<close> raises for the statuses 400 to 599.\<close>

definition get_text :: "network \<Rightarrow> string \<Rightarrow> world \<Rightarrow> string result" where
  "get_text net url w =
     (case session_get net url w of
        (Inl e, w') \<Rightarrow> (Inl e, w')
      | (Inr (st, body), w') \<Rightarrow>
          if st = 403 then (Inl (SystemExit (''[!] HTTP 403 for '' @ url)), w')
          else if 400 \<le> st \<and> st < 600 then (Inl (HTTPError st), w')
          else (Inr body, w'))"

definition get_bytes :: "network \<Rightarrow> string \<Rightarrow> world \<Rightarrow> string result" where
  "get_bytes net url w =
     (case session_get net url w of
        (Inl e, w') \<Rightarrow> (Inl e, w')
      | (Inr (st, body), w') \<Rightarrow>
          if 400 \<le> st \<and> st < 600 then (Inl (HTTPError st), w')
          else (Inr body, w'))"

section \<open>Logging\<close>

definition log :: "string \<Rightarrow> world \<Rightarrow> world" where
  "log msg w = w\<lparr>out := out w @ [''[+] '' @ msg]\<rparr>"

definition warn :: "string \<Rightarrow> world \<Rightarrow> world" where
  "warn msg w = w\<lparr>out := out w @ [''[!] '' @ msg]\<rparr>"

text \<open>\<open>die\<close> prints the message and leaves; the exit is the error value carrying it.\<close>

definition die :: "string \<Rightarrow> world \<Rightarrow> 'a result" where
  "die msg w = (Inl (SystemExit msg), warn msg w)"

section \<open>Build discovery\<close>

definition BASE_RELEASE :: string where
  "BASE_RELEASE = ''https://download.rockbox.org/release/''"

definition BASE_DAILY :: string where
  "BASE_DAILY = ''https://download.rockbox.org/daily/''"

definition DAILY_SHTML :: string where
  "DAILY_SHTML = ''https://www.rockbox.org/daily.shtml''"

definition DAILY_INDEX_TMPL :: "string \<Rightarrow> string" where
  "DAILY_INDEX_TMPL device = BASE_DAILY @ device @ ''/''"

text \<open>
  \<open>urljoin(base, rel)\<close> for a base that ends in \<open>/\<close> and a relative reference made of a
  file name, as they are for device names of \<open>[a-z0-9]+\<close> and dotted version numbers:
  the reference is appended to the base.
\<close>

definition urljoin :: "string \<Rightarrow> string \<Rightarrow> string" where
  "urljoin base rel = base @ rel"

text \<open>\<open>max\<close> of a non-empty list: the first of the largest elements.\<close>

definition py_max :: "'a::linorder \<Rightarrow> 'a list \<Rightarrow> 'a" where
  "py_max x xs = fold (\<lambda>y m. if m < y then y else m) xs x"

definition index_dates :: "string \<Rightarrow> string \<Rightarrow> string list" where
  "index_dates device text =
     map snd (filter (\<lambda>m. fst m = device) (nightly_finditer text))"

definition href_dates :: "string \<Rightarrow> string \<Rightarrow> string list" where
  "href_dates device text =
     concat (map (\<lambda>h. case nightly_search h of
                        None \<Rightarrow> []
                      | Some (dev, date) \<Rightarrow> if dev = device then [date] else [])
                 (findall_href text))"

definition latest_nightly_url_for_device ::
  "network \<Rightarrow> string \<Rightarrow> world \<Rightarrow> (string \<times> string) result" where
  "latest_nightly_url_for_device net device w =
     (case get_text net (DAILY_INDEX_TMPL device) w of
        (Inl e, w') \<Rightarrow> (Inl e, w')
      | (Inr text, w') \<Rightarrow>
          let dates0 = index_dates device text;
              dates = (if dates0 = [] then dates0 @ href_dates device text else dates0)
          in (case dates of
                [] \<Rightarrow> die (''No nightly builds found for '' @ device) w'
              | d # ds \<Rightarrow>
                  let latest = py_max d ds in
                  (Inr (urljoin (BASE_DAILY @ device @ ''/'')
                          (''rockbox-'' @ device @ ''-'' @ latest @ ''.zip''), latest), w')))"

definition nightly_url_for_date :: "string \<Rightarrow> string \<Rightarrow> world \<Rightarrow> string result" where
  "nightly_url_for_date device yyyymmdd w =
     (if \<not> fullmatch_date yyyymmdd then die ''--date must be YYYYMMDD'' w
      else (Inr (urljoin (BASE_DAILY @ device @ ''/'')
                   (''rockbox-'' @ device @ ''-'' @ yyyymmdd @ ''.zip'')), w))"

definition release_url :: "string \<Rightarrow> string \<Rightarrow> string" where
  "release_url device version =
     urljoin BASE_RELEASE (version @ ''/rockbox-'' @ device @ ''-'' @ version @ ''.zip'')"

text \<open>
  \<open>re.findall(rf'rockbox-{re.escape(device)}-(\d{{8}})\.zip', page)\<close>: the dates of the
  builds of the device named on a page.
\<close>

definition match_device_date :: "string \<Rightarrow> string \<Rightarrow> (string \<times> string) option" where
  "match_device_date dev s =
     (case match_lit (''rockbox-'' @ dev @ ''-'') s of
        None \<Rightarrow> None
      | Some s1 \<Rightarrow>
          (case match_digits 8 s1 of
             None \<Rightarrow> None
           | Some (date, s2) \<Rightarrow>
               (case match_lit ''.zip'' s2 of
                  None \<Rightarrow> None
                | Some rest \<Rightarrow> Some (date, rest))))"

fun device_dates_from :: "string \<Rightarrow> nat \<Rightarrow> string \<Rightarrow> string list" where
  "device_dates_from dev k [] = []"
| "device_dates_from dev (Suc k) (c # cs) = device_dates_from dev k cs"
| "device_dates_from dev 0 (c # cs) =
     (case match_device_date dev (c # cs) of
        None \<Rightarrow> device_dates_from dev 0 cs
      | Some (date, rest) \<Rightarrow> date # device_dates_from dev (length cs - length rest) cs)"

text \<open>\<open>sorted(set(dates), reverse=True)\<close>.\<close>

definition sorted_set_desc :: "string list \<Rightarrow> string list" where
  "sorted_set_desc xs = rev (sort (remdups xs))"

text \<open>
  \<open>list_dailies_for_device(device)\<close>: the dates on the index page of the device; when
  there are none, or when \<open>get_text\<close> left with \<open>SystemExit\<close>, those on the daily page.
\<close>

definition daily_page_dates :: "network \<Rightarrow> string \<Rightarrow> world \<Rightarrow> string list result" where
  "daily_page_dates srv dev w =
     (case get_text srv DAILY_SHTML w of
        (Inl e, w') \<Rightarrow> (Inl e, w')
      | (Inr page, w') \<Rightarrow> (Inr (sorted_set_desc (device_dates_from dev 0 page)), w'))"

definition list_dailies_for_device :: "network \<Rightarrow> string \<Rightarrow> world \<Rightarrow> string list result" where
  "list_dailies_for_device srv dev w =
     (case get_text srv (DAILY_INDEX_TMPL dev) w of
        (Inl (SystemExit msg), w') \<Rightarrow> daily_page_dates srv dev w'
      | (Inl e, w') \<Rightarrow> (Inl e, w')
      | (Inr text, w') \<Rightarrow>
          let outd = sorted_set_desc (index_dates dev text @ href_dates dev text) in
          if outd \<noteq> [] then (Inr outd, w') else daily_page_dates srv dev w')"

section \<open>The environment of a run\<close>

text \<open>
  What a run reads from outside the volume: the network; the zip library, which for the
  bytes of an archive gives its name list and the tree \<open>extractall\<close> leaves in the scratch
  directory (\<open>None\<close> for bytes that are no zip file); the mount state and the clock; the
  text of \<open>datetime.now().strftime("%Y%m%d-%H%M%S")\<close>; the text of the mount point; and the
  files of the host outside the volume, by their path text.
\<close>

record env =
  net :: network
  unzip :: "string \<Rightarrow> (string list \<times> (string \<times> node) list) option"
  mount :: mnt
  stamp :: string
  mount_point :: string
  host :: "string \<Rightarrow> node option"

text \<open>Lifting a file system statement to the state of the run.\<close>

definition on_fs :: "(node \<Rightarrow> outcome) \<Rightarrow> world \<Rightarrow> unit result" where
  "on_fs f w =
     (case f (fs w) of
        (None, fs') \<Rightarrow> (Inr (), w\<lparr>fs := fs'\<rparr>)
      | (Some e, fs') \<Rightarrow> (Inl e, w\<lparr>fs := fs'\<rparr>))"

text \<open>The text of a path of the volume, as \<open>str(Path)\<close> gives it.\<close>

definition path_str :: "env \<Rightarrow> path \<Rightarrow> string" where
  "path_str e p = mount_point e @ concat (map (\<lambda>c. ''/'' @ c) p)"

text \<open>The decimal text of a natural number, for \<open>int(time.time())\<close> in a file name.\<close>

fun str_nat :: "nat \<Rightarrow> string" where
  "str_nat n =
     (if n < 10 then [char_of (48 + n)]
      else str_nat (n div 10) @ [char_of (48 + n mod 10)])"

section \<open>File system helpers\<close>

definition find_dot_rockbox :: path where
  "find_dot_rockbox = [''.rockbox'']"

text \<open>
  \<open>ensure_writable(path)\<close> for the mount point: write a test file and, whatever happened,
  try to unlink it, ignoring a failure of that. A failed write ends the run; the text of
  the exception is left out of the message.
\<close>

definition ensure_writable :: "env \<Rightarrow> world \<Rightarrow> unit result" where
  "ensure_writable e w =
     (let testfile = [''.write_test_'' @ str_nat (now (mount e))] in
      case write_file (mount e) testfile (File ''ok'' (now (mount e))) (fs w) of
        (Some x, fs1) \<Rightarrow>
          die (''Cannot write to '' @ path_str e [])
              (w\<lparr>fs := snd (unlink (mount e) testfile fs1)\<rparr>)
      | (None, fs1) \<Rightarrow> (Inr (), w\<lparr>fs := snd (unlink (mount e) testfile fs1)\<rparr>))"

section \<open>Backup and revert\<close>

text \<open>\<open>backups_dir(root)\<close> for the mount point: the directory is made on the way.\<close>

definition backups_dir :: "env \<Rightarrow> world \<Rightarrow> path result" where
  "backups_dir e w =
     (case on_fs (mkdir (mount e) [''.rockbox_backups'']) w of
        (Inl x, w') \<Rightarrow> (Inl x, w')
      | (Inr u, w') \<Rightarrow> (Inr [''.rockbox_backups''], w'))"

text \<open>
  \<open>create_backup(dot_rockbox, dry, verbose)\<close>. The tar file written holds the managed
  subtree as its one member \<open>.rockbox\<close>.
\<close>

definition create_backup :: "env \<Rightarrow> bool \<Rightarrow> world \<Rightarrow> path option result" where
  "create_backup e dry w =
     (case lookup (fs w) find_dot_rockbox of
        None \<Rightarrow> (Inr None, warn (''No '' @ path_str e find_dot_rockbox @ '' to back up.'') w)
      | Some rb \<Rightarrow>
          (case backups_dir e w of
             (Inl x, w1) \<Rightarrow> (Inl x, w1)
           | (Inr b, w1) \<Rightarrow>
               let outp = b @ [''rockbox-backup-'' @ stamp e @ ''.tar.gz''] in
               if dry then (Inr (Some outp), log (''[dry-run] Would back up: '' @ path_str e outp) w1)
               else
                 (case on_fs (write_file (mount e) outp
                                (TarGz [(''.rockbox'', rb)] (now (mount e))))
                         (log (''Creating backup: '' @ path_str e outp) w1) of
                    (Inl x, w2) \<Rightarrow> (Inl x, w2)
                  | (Inr u, w2) \<Rightarrow> (Inr (Some outp), w2))))"

text \<open>
  The glob \<open>rockbox-backup-*.tar.gz\<close> on a file name: the prefix, anything, the suffix.
\<close>

definition glob_backup :: "string \<Rightarrow> bool" where
  "glob_backup name =
     (length ''rockbox-backup-'' + length ''.tar.gz'' \<le> length name
      \<and> take (length ''rockbox-backup-'') name = ''rockbox-backup-''
      \<and> drop (length name - length ''.tar.gz'') name = ''.tar.gz'')"

text \<open>
  \<open>sorted(..., key=lambda p: p.stat().st_mtime)\<close>: a stable sort by modification time.
\<close>

definition list_backups :: "env \<Rightarrow> world \<Rightarrow> path list result" where
  "list_backups e w =
     (case backups_dir e w of
        (Inl x, w') \<Rightarrow> (Inl x, w')
      | (Inr b, w') \<Rightarrow>
          (Inr (map (\<lambda>en. b @ [fst en])
                  (sort_key (\<lambda>en. mtime (snd en))
                     (filter (\<lambda>en. glob_backup (fst en))
                        (case lookup (fs w') b of None \<Rightarrow> [] | Some d \<Rightarrow> entries d)))), w'))"

text \<open>
  The snapshot a revert names: a path of the volume (what \<open>list_backups\<close> returns) or the
  text of a path elsewhere on the host.
\<close>

datatype backup_ref = OnVolume path | OnHost string

definition backup_node :: "env \<Rightarrow> world \<Rightarrow> backup_ref \<Rightarrow> node option" where
  "backup_node e w r = (case r of OnVolume p \<Rightarrow> lookup (fs w) p | OnHost s \<Rightarrow> host e s)"

definition backup_str :: "env \<Rightarrow> backup_ref \<Rightarrow> string" where
  "backup_str e r = (case r of OnVolume p \<Rightarrow> path_str e p | OnHost s \<Rightarrow> s)"

text \<open>\<open>backup_tar.name\<close>: the last component of the path.\<close>

definition backup_name :: "backup_ref \<Rightarrow> string" where
  "backup_name r =
     (case r of
        OnVolume p \<Rightarrow> (if p = [] then [] else last p)
      | OnHost s \<Rightarrow> rev (takeWhile (\<lambda>c. c \<noteq> CHR ''/'') (rev s)))"

text \<open>
  \<open>restore_backup(root, backup_tar, dry)\<close>: the tar is unpacked into a scratch directory
  and its \<open>.rockbox\<close> merged into the managed subtree.
\<close>

definition restore_backup :: "env \<Rightarrow> backup_ref \<Rightarrow> bool \<Rightarrow> world \<Rightarrow> unit result" where
  "restore_backup e backup_tar dry w =
     (if dry then (Inr (), log (''[dry-run] Would restore '' @ backup_str e backup_tar) w)
      else
        let w1 = log (''Restoring '' @ backup_name backup_tar) w in
        (case backup_node e w1 backup_tar of
           None \<Rightarrow> (Inl FileNotFoundError, w1)
         | Some (Dir es t) \<Rightarrow> (Inl IsADirectoryError, w1)
         | Some (File c t) \<Rightarrow> (Inl ReadError, w1)
         | Some (TarGz members t) \<Rightarrow>
             on_fs (merge_copy (mount e) (map_of members ''.rockbox'') find_dot_rockbox) w1))"

section \<open>Deploy\<close>

text \<open>
  \<open>unzip_and_deploy(zip_bytes, mount_root, dry, verbose)\<close>: the archive must name
  something below a top-level \<open>.rockbox\<close>; it is unpacked into a scratch directory and
  its \<open>.rockbox\<close> merged into the managed subtree.
\<close>

definition top_names :: "string list \<Rightarrow> string list" where
  "top_names names =
     map (takeWhile (\<lambda>c. c \<noteq> CHR ''/'')) (filter (\<lambda>p. CHR ''/'' \<in> set p) names)"

definition unzip_and_deploy :: "env \<Rightarrow> string \<Rightarrow> bool \<Rightarrow> world \<Rightarrow> unit result" where
  "unzip_and_deploy e zip_bytes dry w =
     (case unzip e zip_bytes of
        None \<Rightarrow> (Inl BadZipFile, w)
      | Some (names, extracted) \<Rightarrow>
          if ''.rockbox'' \<notin> set (top_names names) then die ''Archive lacks .rockbox'' w
          else if dry then (Inr (), log ''[dry-run] Would merge into .rockbox'' w)
          else on_fs (merge_copy (mount e) (map_of extracted ''.rockbox'') find_dot_rockbox) w)"

section \<open>Main\<close>

text \<open>
  The arguments of a run that lists nothing, with the mount point already resolved to the
  root of the volume. \<open>revert\<close> is \<open>None\<close> without \<open>--revert\<close>, \<open>Some None\<close> for the
  selector \<open>latest\<close> and \<open>Some (Some r)\<close> for a path.
\<close>

record args =
  device :: "string option"
  date :: "string option"
  release :: "string option"
  revert :: "backup_ref option option"
  dry_run :: bool

text \<open>Python's truth value of an optional string: neither \<open>None\<close> nor empty.\<close>

fun truthy :: "string option \<Rightarrow> bool" where
  "truthy None = False"
| "truthy (Some s) = (s \<noteq> [])"

text \<open>\<open>list_backups(mp)[-1]\<close>: the last element, \<open>IndexError\<close> on an empty list.\<close>

definition last_backup :: "path list \<Rightarrow> world \<Rightarrow> backup_ref result" where
  "last_backup bs w = (if bs = [] then (Inl IndexError, w) else (Inr (OnVolume (last bs)), w))"

definition main_revert :: "env \<Rightarrow> args \<Rightarrow> backup_ref option \<Rightarrow> world \<Rightarrow> unit result" where
  "main_revert e a sel w =
     (case (case sel of
              None \<Rightarrow>
                (case list_backups e w of
                   (Inl x, w1) \<Rightarrow> (Inl x, w1)
                 | (Inr bs, w1) \<Rightarrow> last_backup bs w1)
            | Some r \<Rightarrow> (Inr r, w)) of
        (Inl x, w1) \<Rightarrow> (Inl x, w1)
      | (Inr backup_tar, w1) \<Rightarrow>
          if backup_node e w1 backup_tar = None
          then die (''Backup not found: '' @ backup_str e backup_tar) w1
          else (case ensure_writable e w1 of
                  (Inl x, w2) \<Rightarrow> (Inl x, w2)
                | (Inr u, w2) \<Rightarrow> restore_backup e backup_tar (dry_run a) w2))"

text \<open>The choice of the build: its URL and its label.\<close>

definition select_build :: "env \<Rightarrow> args \<Rightarrow> string \<Rightarrow> world \<Rightarrow> (string \<times> string) result" where
  "select_build e a dev w =
     (if truthy (release a)
      then (Inr (release_url dev (the (release a)), ''release '' @ the (release a)), w)
      else if truthy (date a)
      then (case nightly_url_for_date dev (the (date a)) w of
              (Inl x, w1) \<Rightarrow> (Inl x, w1)
            | (Inr url, w1) \<Rightarrow> (Inr (url, ''nightly '' @ the (date a)), w1))
      else (case latest_nightly_url_for_device (net e) dev w of
              (Inl x, w1) \<Rightarrow> (Inl x, w1)
            | (Inr (url, latest), w1) \<Rightarrow> (Inr (url, ''nightly '' @ latest), w1)))"

definition main_install :: "env \<Rightarrow> args \<Rightarrow> world \<Rightarrow> unit result" where
  "main_install e a w =
     (if \<not> truthy (device a) then die ''Need --device for deployment'' w
      else
        (case select_build e a (the (device a)) w of
           (Inl x, w1) \<Rightarrow> (Inl x, w1)
         | (Inr (url, label), w1) \<Rightarrow>
             (case ensure_writable e
                     (log (''Selected build: '' @ label @ [CHR 0x0A] @ ''URL: '' @ url) w1) of
                (Inl x, w2) \<Rightarrow> (Inl x, w2)
              | (Inr u, w2) \<Rightarrow>
                  (case create_backup e (dry_run a) w2 of
                     (Inl x, w3) \<Rightarrow> (Inl x, w3)
                   | (Inr backup_path, w3) \<Rightarrow>
                       let w4 = (case backup_path of
                                   None \<Rightarrow> w3
                                 | Some bp \<Rightarrow> log (''Backup: '' @ path_str e bp) w3) in
                       if dry_run a then (Inr (), w4)
                       else
                         (case get_bytes (net e) url (log ''Downloading...'' w4) of
                            (Inl x, w5) \<Rightarrow> (Inl x, w5)
                          | (Inr zbytes, w5) \<Rightarrow>
                              (case unzip_and_deploy e zbytes (dry_run a)
                                      (log ''Deploying...'' w5) of
                                 (Inl x, w6) \<Rightarrow> (Inl x, w6)
                               | (Inr v, w6) \<Rightarrow> (Inr (), log ''Done.'' w6)))))))"

definition main :: "env \<Rightarrow> args \<Rightarrow> world \<Rightarrow> unit result" where
  "main e a w =
     (case revert a of
        Some sel \<Rightarrow> main_revert e a sel w
      | None \<Rightarrow> main_install e a w)"

section \<open>Example inputs\<close>

text \<open>The concrete inputs at which the theorems below are evaluated.\<close>

definition empty_world :: world where
  "empty_world = \<lparr>fs = Dir [] 0, reqs = [], out = []\<rparr>"


definition srv_404 :: network where
  "srv_404 u k = Response 404 []"



text \<open>
  Index servers: the page of the device is missing, or lists nothing, while the daily page
  names a build of the device; and a page of the device that lists three builds of it and
  one of another device.
\<close>

definition srv_secondary_only :: network where
  "srv_secondary_only u k =
     (if u = DAILY_SHTML then Response 200 ''rockbox-erosqnative-20250822.zip''
      else Response 404 [])"

definition srv_primary_empty :: network where
  "srv_primary_empty u k =
     (if u = DAILY_SHTML then Response 200 ''rockbox-erosqnative-20250822.zip''
      else Response 200 ''<html>no builds</html>'')"

definition index_page :: string where
  "index_page =
     ''<a href='' @ [CHR 0x22] @ ''rockbox-erosqnative-20250101.zip'' @ [CHR 0x22] @ ''>a</a>''
     @ '' rockbox-erosqnative-20250822.zip rockbox-erosqnative-20250815.zip''
     @ '' rockbox-other-20251231.zip''"

definition srv_index :: network where
  "srv_index u k = Response 200 index_page"

text \<open>A zip library that knows one archive, with one shipped file below \<open>.rockbox\<close>.\<close>

definition unzip_ex :: "string \<Rightarrow> (string list \<times> (string \<times> node) list) option" where
  "unzip_ex b =
     (if b = ''PK''
      then Some ([''.rockbox/'', ''.rockbox/rockbox-info.txt''],
                 [(''.rockbox'', Dir [(''rockbox-info.txt'', File ''new'' 1000)] 1000)])
      else None)"

definition mnt_ex :: mnt where
  "mnt_ex = \<lparr>read_only = False, now = 1000\<rparr>"

definition host_ex :: "string \<Rightarrow> node option" where
  "host_ex s =
     (if s = ''/home/u/b.tar.gz''
      then Some (TarGz [(''.rockbox'', Dir [(''old.cfg'', File ''old'' 3)] 3)] 4)
      else None)"

definition env_ex :: "network \<Rightarrow> env" where
  "env_ex srv = \<lparr>net = srv, unzip = unzip_ex, mount = mnt_ex,
     stamp = ''20250822-120000'', mount_point = ''/mnt/H2'', host = host_ex\<rparr>"

text \<open>A volume with a managed subtree holding one file of the user, and no snapshots.\<close>

definition vol_ex :: world where
  "vol_ex = \<lparr>fs = Dir [(''.rockbox'', Dir [(''config.cfg'', File ''user'' 5)] 5)] 5,
             reqs = [], out = []\<rparr>"

text \<open>The same volume with an empty snapshot directory.\<close>

definition vol_no_snapshots :: world where
  "vol_no_snapshots =
     \<lparr>fs = Dir [(''.rockbox'', Dir [(''config.cfg'', File ''user'' 5)] 5),
                (''.rockbox_backups'', Dir [] 6)] 6,
      reqs = [], out = []\<rparr>"

definition args_dated :: "bool \<Rightarrow> args" where
  "args_dated dry = \<lparr>device = Some ''erosqnative'', date = Some ''20250822'', release = None,
                     revert = None, dry_run = dry\<rparr>"

definition args_revert :: "backup_ref option \<Rightarrow> bool \<Rightarrow> args" where
  "args_revert sel dry = \<lparr>device = None, date = None, release = None,
                          revert = Some sel, dry_run = dry\<rparr>"

text \<open>
  A shipped file \<open>viewers.config\<close>, and a managed subtree in which that name is a
  directory holding a file of the user with the same name.
\<close>

definition shipped_tree :: node where
  "shipped_tree = Dir [(''viewers.config'', File ''shipped'' 7)] 7"

definition user_tree :: node where
  "user_tree =
     Dir [(''.rockbox'',
           Dir [(''viewers.config'', Dir [(''viewers.config'', File ''user'' 5)] 5)] 5)] 5"

text \<open>
  A build with a subdirectory, a shipped file and a default of a file the user has; the
  managed subtree of \<open>vol_ex\<close> after that build is merged into it.
\<close>

definition build_tree :: node where
  "build_tree =
     Dir [(''rocks'', Dir [(''a.rock'', File ''A'' 3)] 3),
          (''rockbox-info.txt'', File ''new'' 4),
          (''config.cfg'', File ''default'' 4)] 4"

definition merged_ex :: node where
  "merged_ex =
     Dir [(''.rockbox'',
           Dir [(''config.cfg'', File ''default'' 4),
                (''rocks'', Dir [(''a.rock'', File ''A'' 3)] 1000),
                (''rockbox-info.txt'', File ''new'' 4)] 1000)] 5"


section \<open>Dated nightly builds\<close>





section \<open>The latest nightly build\<close>

lemma py_max_Max: "py_max x xs = Max (set (x # xs))"
proof -
  have "(\<lambda>y m. if m < y then y else m) = (max :: 'a \<Rightarrow> 'a \<Rightarrow> 'a)"
    by (intro ext) (auto simp: max_def)
  then show ?thesis
    by (simp only: py_max_def Max.set_eq_fold)
qed

text \<open>
  C6. When the index page of the device is fetched and build identifiers of the device
  are found on it (by the pattern on the page or, when that finds none, on its links),
  the latest nightly build is the one with the greatest date string in the lexicographic
  order: the date returned is one of those found and none of them is greater. For the
  identifiers 20250101, 20250822 and 20250815 that date is 20250822.
\<close>

theorem latest_nightly_selects_max:
  assumes "get_text srv (DAILY_INDEX_TMPL dev) w = (Inr text, w')"
    and "dates = (if index_dates dev text = [] then href_dates dev text
                  else index_dates dev text)"
    and "dates \<noteq> []"
  shows "latest_nightly_url_for_device srv dev w =
           (Inr (BASE_DAILY @ dev @ ''/rockbox-'' @ dev @ ''-'' @ Max (set dates) @ ''.zip'',
                 Max (set dates)), w')
         \<and> Max (set dates) \<in> set dates
         \<and> list_all (\<lambda>d. d \<le> Max (set dates)) dates"
proof -
  obtain d ds where dd: "dates = d # ds" using assms(3) by (cases dates) auto
  have m: "py_max d ds = Max (set dates)" by (simp add: py_max_Max dd)
  have "latest_nightly_url_for_device srv dev w =
           (Inr (BASE_DAILY @ dev @ ''/rockbox-'' @ dev @ ''-'' @ py_max d ds @ ''.zip'',
                 py_max d ds), w')"
  proof -
    have e: "(if index_dates dev text = [] then index_dates dev text @ href_dates dev text
              else index_dates dev text) = d # ds"
      using assms(2) dd by (auto split: if_splits)
    show ?thesis
      by (simp add: latest_nightly_url_for_device_def assms(1) Let_def e urljoin_def)
  qed
  moreover have "Max (set dates) \<in> set dates" using assms(3) by (intro Max_in) auto
  moreover have "list_all (\<lambda>d. d \<le> Max (set dates)) dates"
    by (simp add: list_all_iff)
  ultimately show ?thesis by (simp add: m)
qed

theorem latest_nightly_selects_max_witness:
  "latest_nightly_url_for_device srv_index ''erosqnative'' empty_world =
   (Inr (''https://download.rockbox.org/daily/erosqnative/rockbox-erosqnative-20250822.zip'',
         ''20250822''),
    empty_world\<lparr>reqs := [''https://download.rockbox.org/daily/erosqnative/'']\<rparr>)"
proof -
  let ?w' = "empty_world\<lparr>reqs := [''https://download.rockbox.org/daily/erosqnative/'']\<rparr>"
  let ?dates = "[''20250101'', ''20250822'', ''20250815'']"
  have g: "get_text srv_index (DAILY_INDEX_TMPL ''erosqnative'') empty_world = (Inr index_page, ?w')"
    by code_simp
  have i: "index_dates ''erosqnative'' index_page = ?dates"
    by code_simp
  have d: "?dates = (if index_dates ''erosqnative'' index_page = []
                     then href_dates ''erosqnative'' index_page
                     else index_dates ''erosqnative'' index_page)"
    by (simp only: i) simp
  have n: "?dates \<noteq> []" by simp
  have mx: "Max (set ?dates) = ''20250822''" by code_simp
  from latest_nightly_selects_max [OF g d n] show ?thesis
    by (simp only: mx) (simp add: BASE_DAILY_def)
qed

section \<open>The retry policy of a fetch\<close>







section \<open>No second index for the latest nightly build\<close>

text \<open>
  C8, evaluated. When the page of the device answers 404, the resolution
  of the latest nightly build fails with that error after the one request; when the page
  answers but lists no build, the resolution ends with the message that no builds were
  found, again after the one request. In both runs the daily page, which names a build of
  the device, is never asked. Listing the nightly builds of the device from the same
  server does ask the daily page, and finds the build there.
\<close>

theorem latest_nightly_no_fallback:
  "latest_nightly_url_for_device srv_secondary_only ''erosqnative'' empty_world =
     (Inl (HTTPError 404),
      empty_world\<lparr>reqs := [''https://download.rockbox.org/daily/erosqnative/'']\<rparr>)
   \<and> latest_nightly_url_for_device srv_primary_empty ''erosqnative'' empty_world =
     (Inl (SystemExit ''No nightly builds found for erosqnative''),
      empty_world\<lparr>reqs := [''https://download.rockbox.org/daily/erosqnative/''],
                   out := [''[!] No nightly builds found for erosqnative'']\<rparr>)
   \<and> list_dailies_for_device srv_primary_empty ''erosqnative'' empty_world =
     (Inr [''20250822''],
      empty_world\<lparr>reqs := [''https://download.rockbox.org/daily/erosqnative/'',
                             ''https://www.rockbox.org/daily.shtml'']\<rparr>)"
  by code_simp

section \<open>Revert\<close>

lemma lookup_child_is_dir: "lookup n (x # p) = Some c \<Longrightarrow> is_dir (Some n)"
  by (cases n) (auto split: option.splits)

lemma backups_dir_present:
  assumes "lookup (fs w) [''.rockbox_backups''] = Some (Dir es t)"
  shows "backups_dir e w = (Inr [''.rockbox_backups''], w)"
proof -
  have d: "is_dir (Some (fs w))" using assms by (rule lookup_child_is_dir)
  have "mkdir (mount e) [''.rockbox_backups''] (fs w) = (None, fs w)"
    using assms d by (simp add: mkdir_def)
  then show ?thesis by (simp add: backups_dir_def on_fs_def)
qed

text \<open>
  C3, on the code. A revert with the selector \<open>latest\<close> on a volume whose snapshot
  directory holds no snapshot ends with \<open>IndexError\<close>, raised by taking the last element
  of the empty list; nothing is printed and the volume is as before. It does not end with
  the message \<open>Backup not found\<close>.
\<close>

theorem revert_latest_without_snapshots:
  assumes "revert a = Some None"
    and "lookup (fs w) [''.rockbox_backups''] = Some (Dir es t)"
    and "filter (\<lambda>en. glob_backup (fst en)) es = []"
  shows "main e a w = (Inl IndexError, w)"
proof -
  have "list_backups e w = (Inr [], w)"
    using assms(2) assms(3) by (simp add: list_backups_def backups_dir_present [OF assms(2)])
  then show ?thesis
    using assms(1) by (simp add: main_def main_revert_def last_backup_def)
qed

theorem revert_latest_without_snapshots_witness:
  "revert (args_revert None False) = Some None
   \<and> lookup (fs vol_no_snapshots) [''.rockbox_backups''] = Some (Dir [] 6)
   \<and> filter (\<lambda>en. glob_backup (fst en)) [] = []
   \<and> main (env_ex srv_404) (args_revert None False) vol_no_snapshots
       = (Inl IndexError, vol_no_snapshots)"
proof -
  have a: "revert (args_revert None False) = Some None" by (simp add: args_revert_def)
  have b: "lookup (fs vol_no_snapshots) [''.rockbox_backups''] = Some (Dir [] 6)"
    by (simp add: vol_no_snapshots_def)
  have c: "filter (\<lambda>en. glob_backup (fst en)) [] = []" by simp
  from revert_latest_without_snapshots [OF a b c, of "env_ex srv_404"] a b c
  show ?thesis by simp
qed

lemma backups_dir_absent:
  assumes "is_dir (Some (fs w))" and "lookup (fs w) [''.rockbox_backups''] = None"
    and "\<not> read_only (mount e)"
  shows "\<exists>es t. backups_dir e w =
           (Inr [''.rockbox_backups''],
            w\<lparr>fs := Dir (es @ [(''.rockbox_backups'', Dir [] (now (mount e)))]) (now (mount e))\<rparr>)
         \<and> fs w = Dir es t \<and> map_of es ''.rockbox_backups'' = None"
proof -
  obtain es t where f: "fs w = Dir es t" using assms(1) by (cases "fs w") auto
  have m: "map_of es ''.rockbox_backups'' = None"
    using assms(2) f by (simp split: option.splits)
  have u: "AList.update ''.rockbox_backups'' v es = es @ [(''.rockbox_backups'', v)]" for v :: node
    using m by (induction es) (auto split: if_splits)
  have "mkdir (mount e) [''.rockbox_backups''] (fs w) =
          (None, Dir (es @ [(''.rockbox_backups'', Dir [] (now (mount e)))]) (now (mount e)))"
    using assms f m by (simp add: mkdir_def u)
  then show ?thesis using f m by (simp add: backups_dir_def on_fs_def)
qed

text \<open>
  C10, as the code has it. A revert that names its snapshot by a path does not list the
  snapshots: run dry on a volume without the snapshot directory, it leaves the volume
  without one.
\<close>

theorem revert_by_path_makes_no_directory:
  "main (env_ex srv_404) (args_revert (Some (OnHost ''/home/u/b.tar.gz'')) True) vol_ex =
     (Inr (),
      \<lparr>fs = Dir [(''.rockbox'', Dir [(''config.cfg'', File ''user'' 5)] 5)] 1000,
       reqs = [],
       out = [''[+] [dry-run] Would restore /home/u/b.tar.gz'']\<rparr>)
   \<and> lookup (fs (snd (main (env_ex srv_404)
                          (args_revert (Some (OnHost ''/home/u/b.tar.gz'')) True) vol_ex)))
        [''.rockbox_backups''] = None"
  by code_simp

text \<open>
  C10, amended. Listing the snapshots is not read-only: on a writable volume whose root is
  a directory without the snapshot directory, \<open>list_backups\<close> leaves that directory
  behind, empty; and so does every revert with the selector \<open>latest\<close>, dry-run or not.
\<close>

theorem list_backups_creates_directory:
  assumes "is_dir (Some (fs w))" and "lookup (fs w) [''.rockbox_backups''] = None"
    and "\<not> read_only (mount e)"
  shows "lookup (fs (snd (list_backups e w))) [''.rockbox_backups'']
           = Some (Dir [] (now (mount e)))
         \<and> (revert a = Some None \<longrightarrow>
              lookup (fs (snd (main e a w))) [''.rockbox_backups'']
                = Some (Dir [] (now (mount e))))"
proof -
  from backups_dir_absent [OF assms] obtain es t where
    b: "backups_dir e w =
           (Inr [''.rockbox_backups''],
            w\<lparr>fs := Dir (es @ [(''.rockbox_backups'', Dir [] (now (mount e)))]) (now (mount e))\<rparr>)"
    and m: "map_of es ''.rockbox_backups'' = None"
    by blast
  let ?w1 = "w\<lparr>fs := Dir (es @ [(''.rockbox_backups'', Dir [] (now (mount e)))]) (now (mount e))\<rparr>"
  have l: "list_backups e w = (Inr [], ?w1)"
    using m by (simp add: list_backups_def b map_add_def)
  have k: "lookup (fs ?w1) [''.rockbox_backups''] = Some (Dir [] (now (mount e)))"
    using m by (simp add: map_add_def)
  have "revert a = Some None \<Longrightarrow> main e a w = (Inl IndexError, ?w1)"
    by (simp add: main_def main_revert_def l last_backup_def)
  with l k show ?thesis by simp
qed

theorem list_backups_creates_directory_witness:
  "is_dir (Some (fs vol_ex)) \<and> lookup (fs vol_ex) [''.rockbox_backups''] = None
   \<and> \<not> read_only (mount (env_ex srv_404))
   \<and> revert (args_revert None True) = Some None
   \<and> lookup (fs (snd (list_backups (env_ex srv_404) vol_ex))) [''.rockbox_backups'']
           = Some (Dir [] 1000)
   \<and> lookup (fs (snd (main (env_ex srv_404) (args_revert None True) vol_ex)))
        [''.rockbox_backups''] = Some (Dir [] 1000)"
proof -
  have a: "is_dir (Some (fs vol_ex))" by (simp add: vol_ex_def)
  have b: "lookup (fs vol_ex) [''.rockbox_backups''] = None" by (simp add: vol_ex_def)
  have c: "\<not> read_only (mount (env_ex srv_404))" by (simp add: env_ex_def mnt_ex_def)
  have d: "revert (args_revert None True) = Some None" by (simp add: args_revert_def)
  have n: "now (mount (env_ex srv_404)) = 1000" by (simp add: env_ex_def mnt_ex_def)
  from list_backups_creates_directory [OF a b c, of "args_revert None True"] a b c d n
  show ?thesis by simp
qed

section \<open>Install\<close>

text \<open>
  C4, evaluated. A dry-run install of a dated nightly build on a volume
  with a managed subtree and no snapshot directory sends no request, and leaves the
  volume with a new, empty snapshot directory and a new modification time of its root:
  the write test and the making of the snapshot directory come before the dry-run
  return.
\<close>

theorem dry_run_install_writes:
  "main (env_ex srv_404) (args_dated True) vol_ex =
     (Inr (),
      \<lparr>fs = Dir [(''.rockbox'', Dir [(''config.cfg'', File ''user'' 5)] 5),
                 (''.rockbox_backups'', Dir [] 1000)] 1000,
       reqs = [],
       out = [''[+] Selected build: nightly 20250822'' @ [CHR 0x0A]
                @ ''URL: https://download.rockbox.org/daily/erosqnative/rockbox-erosqnative-20250822.zip'',
              ''[+] [dry-run] Would back up: /mnt/H2/.rockbox_backups/rockbox-backup-20250822-120000.tar.gz'',
              ''[+] Backup: /mnt/H2/.rockbox_backups/rockbox-backup-20250822-120000.tar.gz'']\<rparr>)"
  by code_simp


section \<open>The order of an install\<close>




section \<open>Merge copy and files of the user\<close>

text \<open>
  C1, evaluated. The source ships a file \<open>viewers.config\<close>; in the
  destination that name is a directory holding a file of the user of the same name, at a
  path the source does not have. \<open>copy2\<close> copies into the directory, and after the
  merge the file of the user holds the shipped bytes.
\<close>

theorem merge_copy_overwrites_unshipped_file:
  "lookup shipped_tree [''viewers.config'', ''viewers.config''] = None
   \<and> lookup user_tree [''.rockbox'', ''viewers.config'', ''viewers.config'']
       = Some (File ''user'' 5)
   \<and> merge_copy mnt_ex (Some shipped_tree) [''.rockbox''] user_tree =
       (None,
        Dir [(''.rockbox'',
              Dir [(''viewers.config'', Dir [(''viewers.config'', File ''shipped'' 7)] 5)] 5)] 5)"
  by code_simp

section \<open>Merging twice\<close>

subsection \<open>Paths of a tree\<close>

lemma lookup_append:
  "lookup tr (p @ q) = (case lookup tr p of None \<Rightarrow> None | Some n \<Rightarrow> lookup n q)"
  by (induction p arbitrary: tr) (auto split: option.splits)

lemma entries_dir: "map_of (entries n) x = Some c \<Longrightarrow> is_dir (Some n)"
  by (cases n) auto

lemma lookup_prefix_dir: "lookup tr (p @ x # q) = Some n \<Longrightarrow> is_dir (lookup tr p)"
  by (auto simp: lookup_append split: option.splits dest: entries_dir)

lemma lookup_butlast_dir: "p \<noteq> [] \<Longrightarrow> lookup tr p = Some n \<Longrightarrow> is_dir (lookup tr (butlast p))"
  using lookup_prefix_dir [of tr "butlast p" "last p" "[]" n] by simp

lemma put_same: "lookup tr p = Some v \<Longrightarrow> put t p v tr = tr"
proof (induction p arbitrary: tr)
  case Nil
  then show ?case by simp
next
  case (Cons x p)
  then show ?case
    by (cases tr) (auto split: option.splits simp: update_triv)
qed

lemma lookup_put_same:
  "p \<noteq> [] \<Longrightarrow> is_dir (lookup tr (butlast p)) \<Longrightarrow> lookup (put t p v tr) p = Some v"
proof (induction p arbitrary: tr)
  case Nil
  then show ?case by simp
next
  case (Cons x p)
  show ?case
  proof (cases tr)
    case (Dir es t')
    show ?thesis
    proof (cases p)
      case Nil
      then show ?thesis using Dir by (auto split: option.splits simp: update_conv')
    next
      case (Cons y p')
      with Cons.prems Dir obtain c where c: "map_of es x = Some c"
        by (auto split: option.splits)
      with Cons.prems Dir \<open>p = y # p'\<close> have "is_dir (lookup c (butlast p))"
        by auto
      with Cons.IH [of c] \<open>p = y # p'\<close> have "lookup (put t p v c) p = Some v" by simp
      then show ?thesis using Dir c by (simp add: update_conv')
    qed
  next
    case (File c t')
    with Cons.prems show ?thesis by (cases p) auto
  next
    case (TarGz ms t')
    with Cons.prems show ?thesis by (cases p) auto
  qed
qed

lemma is_dir_put:
  "\<not> is_dir (lookup tr q) \<Longrightarrow> is_dir (lookup tr p) \<Longrightarrow> is_dir (lookup (put t q v tr) p)"
proof (induction q arbitrary: tr p)
  case Nil
  then show ?case by (cases p) (auto split: option.splits dest: entries_dir)
next
  case (Cons x q)
  show ?case
  proof (cases tr)
    case (Dir es t')
    show ?thesis
    proof (cases p)
      case Nil
      then show ?thesis using Dir by (auto split: option.splits)
    next
      case (Cons y p')
      show ?thesis
      proof (cases "map_of es x")
        case None
        then show ?thesis using Cons.prems Dir \<open>p = y # p'\<close>
          by (auto split: option.splits simp: update_conv')
      next
        case (Some c)
        show ?thesis
        proof (cases "y = x")
          case True
          with Cons.prems Dir Some \<open>p = y # p'\<close>
          have "\<not> is_dir (lookup c q)" "is_dir (lookup c p')" by auto
          from Cons.IH [OF this] show ?thesis
            using Dir Some True \<open>p = y # p'\<close> by (simp add: update_conv')
        next
          case False
          then show ?thesis using Cons.prems Dir Some \<open>p = y # p'\<close>
            by (auto split: option.splits simp: update_conv')
        qed
      qed
    qed
  next
    case (File c t')
    then show ?thesis using Cons.prems by simp
  next
    case (TarGz ms t')
    then show ?thesis using Cons.prems by simp
  qed
qed

lemma lookup_put_other:
  "\<not> is_dir (lookup tr q) \<Longrightarrow> lookup tr p = Some v \<Longrightarrow> \<not> is_dir (Some v) \<Longrightarrow> q \<noteq> p \<Longrightarrow>
   lookup (put t q v' tr) p = Some v"
proof (induction q arbitrary: tr p)
  case Nil
  then show ?case by (cases p) (auto split: option.splits dest: entries_dir)
next
  case (Cons x q)
  show ?case
  proof (cases tr)
    case (Dir es t')
    show ?thesis
    proof (cases p)
      case Nil
      then show ?thesis using Cons.prems Dir by auto
    next
      case (Cons y p')
      show ?thesis
      proof (cases "map_of es x")
        case None
        then show ?thesis using Cons.prems Dir \<open>p = y # p'\<close>
          by (auto split: option.splits simp: update_conv')
      next
        case (Some c)
        show ?thesis
        proof (cases "y = x")
          case True
          with Cons.prems Dir Some \<open>p = y # p'\<close>
          have "\<not> is_dir (lookup c q)" "lookup c p' = Some v" "q \<noteq> p'" by auto
          from Cons.IH [OF this(1) this(2) Cons.prems(3) this(3)] show ?thesis
            using Dir Some True \<open>p = y # p'\<close> by (simp add: update_conv')
        next
          case False
          then show ?thesis using Cons.prems Dir Some \<open>p = y # p'\<close>
            by (auto split: option.splits simp: update_conv')
        qed
      qed
    qed
  next
    case (File c t')
    then show ?thesis using Cons.prems by simp
  next
    case (TarGz ms t')
    then show ?thesis using Cons.prems by simp
  qed
qed


subsection \<open>The effect of one call\<close>

lemma mkdir_cases:
  assumes "mkdir m p tr = (r, tr')"
  shows "(r \<noteq> None \<and> tr' = tr) \<or> (r = None \<and> tr' = tr \<and> is_dir (lookup tr p))
         \<or> (r = None \<and> \<not> read_only m \<and> p \<noteq> [] \<and> lookup tr p = None
             \<and> is_dir (lookup tr (butlast p)) \<and> tr' = put (now m) p (Dir [] (now m)) tr)"
  using assms by (auto simp: mkdir_def split: if_splits option.splits)

lemma write_file_cases:
  assumes "write_file m p v tr = (r, tr')"
  shows "(r \<noteq> None \<and> tr' = tr)
         \<or> (r = None \<and> \<not> read_only m \<and> p \<noteq> [] \<and> \<not> is_dir (lookup tr p)
             \<and> is_dir (lookup tr (butlast p)) \<and> tr' = put (now m) p v tr)"
  using assms by (auto simp: write_file_def split: if_splits option.splits)

lemma run_call_fail: "run_call m c tr = (Some e, tr') \<Longrightarrow> tr' = tr"
proof (cases c)
  case (MkDir p)
  assume "run_call m c tr = (Some e, tr')"
  with MkDir show ?thesis using mkdir_cases [of m p tr "Some e" tr'] by auto
next
  case (Copy name v dst)
  assume "run_call m c tr = (Some e, tr')"
  with Copy show ?thesis
    using write_file_cases [of m dst v tr "Some e" tr']
          write_file_cases [of m "dst @ [name]" v tr "Some e" tr']
    by (auto simp: copy2_def split: if_splits)
qed

lemma run_call_ro: "read_only m \<Longrightarrow> run_call m c tr = (r, tr') \<Longrightarrow> tr' = tr"
proof (cases c)
  case (MkDir p)
  assume "read_only m" "run_call m c tr = (r, tr')"
  with MkDir show ?thesis using mkdir_cases [of m p tr r tr'] by auto
next
  case (Copy name v dst)
  assume "read_only m" "run_call m c tr = (r, tr')"
  with Copy show ?thesis
    using write_file_cases [of m dst v tr r tr']
          write_file_cases [of m "dst @ [name]" v tr r tr']
    by (auto simp: copy2_def split: if_splits)
qed

lemma run_call_effect:
  assumes "run_call m c tr = (None, tr')"
  obtains (same) p where "c = MkDir p" "is_dir (lookup tr p)" "tr' = tr"
    | (made) p where "c = MkDir p" "p \<noteq> []" "lookup tr p = None"
        "is_dir (lookup tr (butlast p))" "tr' = put (now m) p (Dir [] (now m)) tr"
    | (copied) name v dst q where "c = Copy name v dst"
        "if is_dir (lookup tr dst) then q = dst @ [name] else q = dst"
        "q \<noteq> []" "\<not> is_dir (lookup tr q)" "is_dir (lookup tr (butlast q))"
        "tr' = put (now m) q v tr"
proof (cases c)
  case (MkDir p)
  with assms that(1) [of p] that(2) [of p] show ?thesis
    using mkdir_cases [of m p tr None tr'] by auto
next
  case (Copy name v dst)
  show ?thesis
  proof (cases "is_dir (lookup tr dst)")
    case True
    with assms Copy have "write_file m (dst @ [name]) v tr = (None, tr')"
      by (simp add: copy2_def)
    from write_file_cases [OF this] True Copy that(3) [of name v dst "dst @ [name]"]
    show ?thesis by auto
  next
    case False
    with assms Copy have "write_file m dst v tr = (None, tr')"
      by (simp add: copy2_def)
    from write_file_cases [OF this] False Copy that(3) [of name v dst dst]
    show ?thesis by auto
  qed
qed

lemma call_done_after:
  assumes "run_call m c tr = (None, tr')"
  shows "call_done c tr'"
  using assms
proof (cases rule: run_call_effect)
  case (same p)
  then show ?thesis by simp
next
  case (made p)
  then show ?thesis using lookup_put_same [of p tr "now m" "Dir [] (now m)"] by simp
next
  case (copied name v dst q)
  have l: "lookup tr' q = Some v"
    using copied lookup_put_same [of q tr "now m" v] by simp
  show ?thesis
  proof (cases "is_dir (lookup tr dst)")
    case True
    then have "is_dir (lookup tr' dst)"
      using copied is_dir_put [of tr q dst "now m" v] by simp
    with l True copied show ?thesis by simp
  next
    case False
    with l copied show ?thesis by simp
  qed
qed

lemma call_done_noop:
  assumes "\<not> read_only m" and "call_of s d c" and "call_done c tr"
  shows "run_call m c tr = (None, tr)"
proof (cases c)
  case (MkDir p)
  with assms obtain n where n: "lookup tr p = Some n" "is_dir (Some n)"
    by (cases "lookup tr p") auto
  show ?thesis
  proof (cases "p = []")
    case True
    with n MkDir show ?thesis by (simp add: mkdir_def)
  next
    case False
    from lookup_butlast_dir [OF False n(1)]
    obtain par where "lookup tr (butlast p) = Some par" "is_dir (Some par)"
      by (cases "lookup tr (butlast p)") auto
    with n MkDir False show ?thesis by (simp add: mkdir_def)
  qed
next
  case (Copy name v dst)
  with assms have v: "\<not> is_dir (Some v)" "dst \<noteq> []" by auto
  from assms Copy have "lookup tr dst = Some v
      \<or> (is_dir (lookup tr dst) \<and> lookup tr (dst @ [name]) = Some v)" by simp
  then show ?thesis
  proof
    assume a: "lookup tr dst = Some v"
    from lookup_butlast_dir [OF v(2) a]
    obtain par where p: "lookup tr (butlast dst) = Some par" "is_dir (Some par)"
      by (cases "lookup tr (butlast dst)") auto
    have "write_file m dst v tr = (None, tr)"
      using a v p assms(1) by (simp add: write_file_def put_same)
    then show ?thesis using Copy a v by (simp add: copy2_def)
  next
    assume a: "is_dir (lookup tr dst) \<and> lookup tr (dst @ [name]) = Some v"
    then obtain par where p: "lookup tr dst = Some par" "is_dir (Some par)"
      by (cases "lookup tr dst") auto
    have "write_file m (dst @ [name]) v tr = (None, tr)"
      using a v p assms(1) by (simp add: write_file_def put_same)
    then show ?thesis using Copy a by (simp add: copy2_def)
  qed
qed


lemma lookup_below_file:
  "lookup s p = Some v \<Longrightarrow> \<not> is_dir (Some v) \<Longrightarrow> lookup s (p @ x # q) = None"
  by (cases v) (auto simp: lookup_append)

lemma call_of_same_target:
  assumes "call_of s d (Copy name v dst)" and "call_of s d (Copy name' v' dst')"
    and "q = dst \<or> q = dst @ [name]" and "q' = dst' \<or> q' = dst' @ [name']"
    and "q = q'"
  shows "v = v'"
proof -
  let ?n = "length d"
  from assms(1) have a: "\<not> is_dir (Some v)" "dst \<noteq> []" "name = last dst"
    "take ?n dst = d" "lookup s (drop ?n dst) = Some v" "drop ?n dst \<noteq> []" by auto
  from assms(2) have b: "\<not> is_dir (Some v')" "dst' \<noteq> []" "name' = last dst'"
    "take ?n dst' = d" "lookup s (drop ?n dst') = Some v'" "drop ?n dst' \<noteq> []" by auto
  have la: "?n \<le> length dst" using a(4) by (metis length_take min.cobounded1)
  have lb: "?n \<le> length dst'" using b(4) by (metis length_take min.cobounded1)
  consider "dst = dst'" | "dst' = dst @ [name]" | "dst = dst' @ [name']"
    using assms(3) assms(4) assms(5) by auto
  then show ?thesis
  proof cases
    case 1
    with a b show ?thesis by simp
  next
    case 2
    then have "drop ?n dst' = drop ?n dst @ [name]" using la by simp
    with lookup_below_file [OF a(5) a(1), of name "[]"] b(5) show ?thesis by simp
  next
    case 3
    then have "drop ?n dst = drop ?n dst' @ [name']" using lb by simp
    with lookup_below_file [OF b(5) b(1), of name' "[]"] a(5) show ?thesis by simp
  qed
qed

lemma call_done_stable:
  assumes "call_of s d c" and "call_of s d c'" and "call_done c tr"
    and "run_call m c' tr = (None, tr')"
  shows "call_done c tr'"
  using assms(4)
proof (cases rule: run_call_effect)
  case (same p)
  with assms(3) show ?thesis by simp
next
  case (made p)
  have nd: "\<not> is_dir (lookup tr p)" using made by simp
  show ?thesis
  proof (cases c)
    case (MkDir p0)
    with assms(3) made is_dir_put [OF nd, of p0 "now m" "Dir [] (now m)"] show ?thesis by simp
  next
    case (Copy name v dst)
    with assms(1) have v: "\<not> is_dir (Some v)" by simp
    from assms(3) Copy have "lookup tr dst = Some v
      \<or> (is_dir (lookup tr dst) \<and> lookup tr (dst @ [name]) = Some v)" by simp
    then show ?thesis
    proof
      assume a: "lookup tr dst = Some v"
      then have "p \<noteq> dst" using made by auto
      from lookup_put_other [OF nd a v this, of "now m" "Dir [] (now m)"] made Copy
      show ?thesis by simp
    next
      assume a: "is_dir (lookup tr dst) \<and> lookup tr (dst @ [name]) = Some v"
      then have "p \<noteq> dst @ [name]" using made by auto
      from lookup_put_other [of tr p "dst @ [name]" v "now m" "Dir [] (now m)"] nd v this a
        is_dir_put [OF nd, of dst "now m" "Dir [] (now m)"] made Copy
      show ?thesis by simp
    qed
  qed
next
  case (copied name' v' dst' q')
  have q': "q' = dst' \<or> q' = dst' @ [name']" using copied(2) by (auto split: if_splits)
  show ?thesis
  proof (cases c)
    case (MkDir p0)
    with assms(3) copied is_dir_put [OF copied(4), of p0 "now m" v'] show ?thesis by simp
  next
    case (Copy name v dst)
    with assms(1) have v: "\<not> is_dir (Some v)" by simp
    have same: "q' = dst \<or> q' = dst @ [name] \<Longrightarrow> v = v'"
      using call_of_same_target [of s d name v dst name' v' dst' q' q'] assms(1) assms(2)
        Copy copied(1) q' by auto
    from assms(3) Copy have "lookup tr dst = Some v
      \<or> (is_dir (lookup tr dst) \<and> lookup tr (dst @ [name]) = Some v)" by simp
    then show ?thesis
    proof
      assume a: "lookup tr dst = Some v"
      show ?thesis
      proof (cases "q' = dst")
        case True
        with same a copied put_same [of tr dst v "now m"] assms(3) show ?thesis by simp
      next
        case False
        from lookup_put_other [OF copied(4) a v False, of "now m" v'] copied Copy
        show ?thesis by simp
      qed
    next
      assume a: "is_dir (lookup tr dst) \<and> lookup tr (dst @ [name]) = Some v"
      show ?thesis
      proof (cases "q' = dst @ [name]")
        case True
        with same a copied put_same [of tr "dst @ [name]" v "now m"] assms(3)
        show ?thesis by simp
      next
        case False
        from lookup_put_other [of tr q' "dst @ [name]" v "now m" v'] copied(4) v False a
          is_dir_put [OF copied(4), of dst "now m" v'] copied Copy
        show ?thesis by simp
      qed
    qed
  qed
qed

subsection \<open>Running the calls again\<close>

lemma for_each_append:
  "for_each body (xs @ ys) tr =
     (case for_each body xs tr of
        (None, tr') \<Rightarrow> for_each body ys tr'
      | (Some e, tr') \<Rightarrow> (Some e, tr'))"
  by (induction xs arbitrary: tr) (auto split: prod.splits option.splits)

lemma for_each_map: "for_each body (map g xs) tr = for_each (\<lambda>x. body (g x)) xs tr"
  by (induction xs arbitrary: tr) (auto split: prod.splits option.splits)

lemma for_each_unchanged:
  assumes "\<And>x s r s'. body x s = (r, s') \<Longrightarrow> s' = s"
    and "for_each body xs tr = (r, tr')"
  shows "tr' = tr"
  using assms(2)
proof (induction xs arbitrary: tr)
  case Nil
  then show ?case by simp
next
  case (Cons x xs)
  obtain r1 s1 where b: "body x tr = (r1, s1)" by (cases "body x tr")
  with assms(1) have "s1 = tr" by blast
  with Cons b show ?case by (cases r1) auto
qed

lemma for_each_all_done:
  assumes "\<not> read_only m" and "\<forall>c \<in> set cs. call_of s d c \<and> call_done c tr"
  shows "for_each (run_call m) cs tr = (None, tr)"
  using assms(2)
proof (induction cs)
  case Nil
  show ?case by simp
next
  case (Cons c cs)
  from Cons.prems have "call_of s d c" "call_done c tr" by auto
  from call_done_noop [OF assms(1) this] Cons show ?case by simp
qed

lemma run_call_result_indep:
  assumes "read_only m' = read_only m"
  shows "fst (run_call m' c tr) = fst (run_call m c tr)"
proof (cases c)
  case (MkDir p)
  with assms show ?thesis by (auto simp: mkdir_def split: option.splits)
next
  case (Copy name v dst)
  with assms show ?thesis by (auto simp: copy2_def write_file_def split: option.splits)
qed

lemma run_call_fail_indep:
  assumes "read_only m' = read_only m" and "run_call m c tr = (Some e, tr')"
  shows "run_call m' c tr = (Some e, tr)"
proof -
  have "fst (run_call m' c tr) = Some e"
    using run_call_result_indep [OF assms(1), of c tr] assms(2) by simp
  then show ?thesis
    using run_call_fail [of m' c tr e "snd (run_call m' c tr)"]
    by (cases "run_call m' c tr") auto
qed

lemma run_call_ro_indep:
  assumes "read_only m" and "read_only m'"
  shows "run_call m' c tr = run_call m c tr"
proof -
  have "snd (run_call m' c tr) = tr"
    using run_call_ro [OF assms(2), of c tr] by (cases "run_call m' c tr") auto
  moreover have "snd (run_call m c tr) = tr"
    using run_call_ro [OF assms(1), of c tr] by (cases "run_call m c tr") auto
  moreover have "fst (run_call m' c tr) = fst (run_call m c tr)"
    using run_call_result_indep [of m' m c tr] assms by simp
  ultimately show ?thesis by (simp add: prod_eq_iff)
qed

lemma for_each_rerun:
  assumes "\<not> read_only m" and "\<not> read_only m'"
    and "\<forall>c \<in> set (pre @ cs). call_of s d c"
    and "\<forall>c \<in> set pre. call_done c tr"
    and "for_each (run_call m) cs tr = (r, tr')"
  shows "for_each (run_call m') (pre @ cs) tr' = (r, tr')"
  using assms(3) assms(4) assms(5)
proof (induction cs arbitrary: pre tr)
  case Nil
  then have "r = None" "tr' = tr" by auto
  with Nil for_each_all_done [OF assms(2), of pre s d tr] show ?case by simp
next
  case (Cons c cs)
  obtain r1 s1 where b: "run_call m c tr = (r1, s1)" by (cases "run_call m c tr")
  show ?case
  proof (cases r1)
    case (Some e)
    with b have s1: "s1 = tr" using run_call_fail by blast
    with Cons.prems(3) b Some have r: "r = Some e" "tr' = tr" by auto
    have again: "run_call m' c tr = (Some e, tr)"
      using run_call_fail_indep [of m' m c tr e s1] assms(1) assms(2) b Some by simp
    have "for_each (run_call m') pre tr = (None, tr)"
      using Cons.prems for_each_all_done [OF assms(2), of pre s d tr] by simp
    then show ?thesis using again r by (simp add: for_each_append)
  next
    case None
    with b Cons.prems(3) have rest: "for_each (run_call m) cs s1 = (r, tr')" by simp
    have d: "\<forall>c' \<in> set (pre @ [c]). call_done c' s1"
    proof
      fix c' assume "c' \<in> set (pre @ [c])"
      then consider "c' \<in> set pre" | "c' = c" by auto
      then show "call_done c' s1"
      proof cases
        case 1
        with Cons.prems b None show ?thesis
          using call_done_stable [of s d c' c tr m s1] by simp
      next
        case 2
        with b None show ?thesis using call_done_after by simp
      qed
    qed
    have "\<forall>c' \<in> set ((pre @ [c]) @ cs). call_of s d c'" using Cons.prems(1) by simp
    from Cons.IH [OF this d rest] show ?thesis by simp
  qed
qed

subsection \<open>The calls of a merge\<close>

lemma run_call_eta:
  "run_call m (MkDir p) = mkdir m p" "run_call m (Copy name v dst) = copy2 m name v dst"
  by (rule ext, simp)+

lemma merge_step_calls:
  "merge_step m d step tr = for_each (run_call m) (step_calls d step) tr"
proof -
  obtain rel dirs files where st: "step = (rel, dirs, files)" by (cases step)
  show ?thesis
    unfolding st merge_step_def step_calls_def
    by (simp add: for_each_append for_each_map run_call_eta Let_def
             split: prod.splits option.splits)
qed

lemma merge_steps_calls:
  "for_each (merge_step m d) steps tr =
   for_each (run_call m) (concat (map (step_calls d) steps)) tr"
  by (induction steps arbitrary: tr)
     (auto simp: for_each_append merge_step_calls split: prod.splits option.splits)

lemma merge_copy_calls:
  "merge_copy m src d tr = for_each (run_call m) (merge_calls src d) tr"
  by (simp add: merge_copy_def merge_calls_def merge_steps_calls split: prod.splits option.splits)

lemma walk_call_of:
  assumes "wf_tree n" and "lookup s rel = Some n"
  shows "\<forall>step \<in> set (walk rel n). \<forall>c \<in> set (step_calls d step). call_of s d c"
  using assms
proof (induction rel n rule: walk.induct)
  case (1 rel es t)
  have here: "\<forall>c \<in> set (step_calls d (rel, map fst (subdirs es), plain_files es)). call_of s d c"
  proof
    fix c assume "c \<in> set (step_calls d (rel, map fst (subdirs es), plain_files es))"
    then consider "\<exists>p. c = MkDir p"
      | f where "f \<in> set (plain_files es)" "c = Copy (fst f) (snd f) ((d @ rel) @ [fst f])"
      by (auto simp: step_calls_def)
    then show "call_of s d c"
    proof cases
      case 1
      then show ?thesis by auto
    next
      case 2
      then have f: "f \<in> set es" "\<not> is_dir (Some (snd f))" by (auto simp: plain_files_def)
      have "map_of es (fst f) = Some (snd f)"
        using "1.prems"(1) f(1) by (intro map_of_is_SomeI) auto
      then have "lookup s (rel @ [fst f]) = Some (snd f)"
        using "1.prems"(2) by (simp add: lookup_append)
      then show ?thesis using 2 f by simp
    qed
  qed
  have below: "\<forall>step \<in> set (walk (rel @ [fst e]) (snd e)).
                 \<forall>c \<in> set (step_calls d step). call_of s d c"
    if e: "e \<in> set es" "is_dir (Some (snd e))" for e
  proof -
    have w: "wf_tree (snd e)" using "1.prems"(1) e(1) by simp
    have "map_of es (fst e) = Some (snd e)"
      using "1.prems"(1) e(1) by (intro map_of_is_SomeI) auto
    then have l: "lookup s (rel @ [fst e]) = Some (snd e)"
      using "1.prems"(2) by (simp add: lookup_append)
    from "1.IH" [OF e(1) e(2) w l] show ?thesis .
  qed
  show ?case using here below by (auto split: if_splits)
qed simp_all

lemma merge_calls_call_of:
  assumes "case src of None \<Rightarrow> True | Some s \<Rightarrow> wf_tree s"
  shows "\<forall>c \<in> set (merge_calls src d). call_of (case src of None \<Rightarrow> Dir [] 0 | Some s \<Rightarrow> s) d c"
proof (cases src)
  case None
  then show ?thesis by (simp add: merge_calls_def)
next
  case (Some s)
  with assms have w: "wf_tree s" by simp
  have "lookup s [] = Some s" by simp
  from walk_call_of [OF w this, of d] Some show ?thesis
    by (auto simp: merge_calls_def)
qed

text \<open>
  C9. Merging is idempotent: for every source tree (with distinct names in each of its
  directories, as a directory has them) and every destination, a second merge of the same
  source, at whatever time of the clock, ends as the first did (completing, or raising
  the same exception) and leaves the file system exactly as the first merge left it.
\<close>

theorem merge_copy_idempotent:
  assumes "case src of None \<Rightarrow> True | Some s \<Rightarrow> wf_tree s"
    and "merge_copy m src d tr = (r, tr')"
    and "read_only m' = read_only m"
  shows "merge_copy m' src d tr' = (r, tr')"
proof (cases "read_only m")
  case True
  have "tr' = tr"
    using for_each_unchanged [of "run_call m" "merge_calls src d" tr r tr']
      run_call_ro [OF True] assms(2)
    by (simp add: merge_copy_calls)
  moreover have "run_call m' = run_call m"
    using run_call_ro_indep [OF True, of m'] assms(3) True by (intro ext) simp
  ultimately show ?thesis using assms(2) by (simp add: merge_copy_calls)
next
  case False
  then have f: "\<not> read_only m'" using assms(3) by simp
  from for_each_rerun [OF False f, of "[]" "merge_calls src d"
        "case src of None \<Rightarrow> Dir [] 0 | Some s \<Rightarrow> s" d tr r tr']
    merge_calls_call_of [OF assms(1), of d] assms(2)
  show ?thesis by (simp add: merge_copy_calls)
qed

theorem merge_copy_idempotent_witness:
  "(case Some build_tree of None \<Rightarrow> True | Some s \<Rightarrow> wf_tree s)
   \<and> merge_copy mnt_ex (Some build_tree) [''.rockbox''] (fs vol_ex) = (None, merged_ex)
   \<and> read_only (mnt_ex\<lparr>now := 2000\<rparr>) = read_only mnt_ex
   \<and> merge_copy (mnt_ex\<lparr>now := 2000\<rparr>) (Some build_tree) [''.rockbox''] merged_ex
       = (None, merged_ex)"
proof -
  have a: "case Some build_tree of None \<Rightarrow> True | Some s \<Rightarrow> wf_tree s" by code_simp
  have b: "merge_copy mnt_ex (Some build_tree) [''.rockbox''] (fs vol_ex) = (None, merged_ex)"
    by code_simp
  have c: "read_only (mnt_ex\<lparr>now := 2000\<rparr>) = read_only mnt_ex" by simp
  from merge_copy_idempotent [OF a b c] a b c show ?thesis by simp
qed

section \<open>No path is removed by a merge\<close>

text \<open>
  Whatever a merge does and however it ends, every path of the volume that held a file or
  a directory before holds one after: a call replaces a file by a file or adds an entry,
  and a directory stays a directory.
\<close>

lemma present_put:
  assumes "lookup tr p = Some n" and "\<not> is_dir (lookup tr q)"
  shows "lookup (put t q v tr) p \<noteq> None"
proof (cases "is_dir (Some n)")
  case True
  with assms is_dir_put [of tr q p t v] have "is_dir (lookup (put t q v tr) p)" by simp
  then show ?thesis by (cases "lookup (put t q v tr) p") auto
next
  case False
  show ?thesis
  proof (cases "q = p")
    case neq: False
    from lookup_put_other [OF assms(2) assms(1) False neq, of t v] show ?thesis by simp
  next
    case True
    show ?thesis
    proof (cases "p = []")
      case True
      with \<open>q = p\<close> show ?thesis by simp
    next
      case nonempty: False
      from lookup_put_same [OF nonempty lookup_butlast_dir [OF nonempty assms(1)], of t v] True
      show ?thesis by simp
    qed
  qed
qed

lemma run_call_keeps_paths:
  assumes "run_call m c tr = (r, tr')" and "lookup tr p = Some n"
  shows "lookup tr' p \<noteq> None"
proof (cases r)
  case (Some e)
  with assms run_call_fail [of m c tr e tr'] show ?thesis by simp
next
  case None
  with assms(1) have "run_call m c tr = (None, tr')" by simp
  then show ?thesis
  proof (cases rule: run_call_effect)
    case (same p0)
    with assms(2) show ?thesis by simp
  next
    case (made p0)
    then have "\<not> is_dir (lookup tr p0)" by simp
    from present_put [OF assms(2) this] made show ?thesis by simp
  next
    case (copied name v dst q)
    from present_put [OF assms(2) copied(4)] copied show ?thesis by simp
  qed
qed

lemma for_each_keeps_paths:
  assumes "for_each (run_call m) cs tr = (r, tr')" and "lookup tr p = Some n"
  shows "lookup tr' p \<noteq> None"
  using assms
proof (induction cs arbitrary: tr n)
  case Nil
  then show ?case by auto
next
  case (Cons c cs)
  obtain r1 s1 where b: "run_call m c tr = (r1, s1)" by (cases "run_call m c tr")
  from run_call_keeps_paths [OF b Cons.prems(2)] obtain n1 where n1: "lookup s1 p = Some n1"
    by auto
  show ?case
  proof (cases r1)
    case None
    with b Cons.prems(1) have "for_each (run_call m) cs s1 = (r, tr')" by simp
    from Cons.IH [OF this n1] show ?thesis .
  next
    case (Some e)
    with b Cons.prems(1) n1 show ?thesis by auto
  qed
qed

lemma merge_copy_keeps_paths:
  assumes "merge_copy m src d tr = (r, tr')" and "lookup tr p = Some n"
  shows "lookup tr' p \<noteq> None"
  using for_each_keeps_paths [of m "merge_calls src d" tr r tr' p n] assms
  by (simp add: merge_copy_calls)

end
